theory Spec2Isabelle
  imports Complex_Main "HOL-Library.Sublist"
begin

section \<open>Token store (stores/tokenStore.ts)\<close>

text \<open>
  The zustand store keeps one field of data, \<open>token: TokenInfo | null\<close>; the state is
  therefore modelled as \<open>TokenInfo option\<close>. The credit counts are JavaScript numbers
  used as counts; they are modelled as integers, so that the guard
  \<open>remaining_generations > 0\<close> of the source is visible in the model.
\<close>

record TokenInfo =
  token :: string
  remaining_generations :: int
  total_generations :: int
  expires_at :: string
  product_sku :: string

type_synonym TokenState = "TokenInfo option"

definition initialTokenState :: TokenState where
  "initialTokenState = None"

definition setToken :: "TokenInfo option \<Rightarrow> TokenState \<Rightarrow> TokenState" where
  "setToken t st = t"


definition clearToken :: "TokenState \<Rightarrow> TokenState" where
  "clearToken st = None"



text \<open>The credit count held by the store is not negative.\<close>

definition credits_nonneg :: "TokenState \<Rightarrow> bool" where
  "credits_nonneg st = (case st of None \<Rightarrow> True | Some t \<Rightarrow> 0 \<le> remaining_generations t)"



section \<open>Crawl API client (api/sitemap.ts)\<close>

text \<open>
  The interfaces of the module become records and the status union a datatype. Field
  names that several interfaces share (\<open>id\<close>, \<open>url\<close>) carry
  the interface's name. Counts are integers; \<open>crawl_time_seconds\<close> is a
  number that the client only passes on, modelled as a real.
\<close>

record PageNode =
  node_id :: string
  node_url :: string
  title :: "string option"
  depth :: int
  outgoing_links :: int
  incoming_links :: int

record PageLink =
  source :: string
  target :: string

datatype CrawlStatus = Pending | Crawling | Completed | Failed


record SitemapResult =
  status :: CrawlStatus
  root_url :: string
  total_pages :: int
  total_links :: int
  nodes :: "PageNode list"
  links :: "PageLink list"
  crawl_time_seconds :: real
  error :: "string option"

record CrawlRequest =
  url :: string
  max_depth :: "int option"
  max_pages :: "int option"

text \<open>
  The body of a failed response is read as \<open>any\<close>: a JSON value. Numbers
  are restricted to integers (and \<open>String\<close> below writes them in full, as
  JavaScript does for the integers it represents exactly).
\<close>

datatype json =
  JNull | JBool bool | JNum int | JStr string | JArr "json list" | JObj "(string \<times> json) list"

text \<open>JavaScript errors, each with its message.\<close>

datatype Error = Error string | SyntaxError string | TypeError string

fun message :: "Error \<Rightarrow> string" where
  "message (Error m) = m"
| "message (SyntaxError m) = m"
| "message (TypeError m) = m"

text \<open>
  A response as \<open>crawlSitemap\<close> reads it: \<open>response.ok\<close> and
  the outcome of \<open>response.json()\<close>, which rejects (\<open>Inl\<close>)
  when the body is not JSON. The declared return type
  \<open>Promise<SitemapResult>\<close> types the parsed body of an OK response; the
  parsed body of any other response is an untyped JSON value.
\<close>

datatype Response =
  OkResponse "Error + SitemapResult"
| ErrorResponse "Error + json"

fun ok :: "Response \<Rightarrow> bool" where
  "ok (OkResponse b) = True"
| "ok (ErrorResponse b) = False"

text \<open>
  One call of \<open>fetch\<close>: the address and the \<open>init\<close> object.
  The body is the request object handed to \<open>JSON.stringify\<close>, the
  platform's serialiser.
\<close>

record FetchCall =
  fetch_url :: string
  http_method :: string
  headers :: "(string \<times> string) list"
  body :: CrawlRequest

text \<open>
  \<open>fetch\<close> either rejects (no response at all: a network failure) or
  resolves to a response.
\<close>

datatype FetchOutcome = Rejected Error | Resolved Response

definition API_BASE :: "string option \<Rightarrow> string" where
  "API_BASE VITE_API_URL =
     (case VITE_API_URL of None \<Rightarrow> '''' | Some s \<Rightarrow> if s = '''' then '''' else s)"

definition crawl_path :: string where
  "crawl_path = ''/api/v1/sitemap/crawl/sync''"

text \<open>JavaScript's truthiness and \<open>String(v)\<close> on JSON values.\<close>

fun truthy :: "json \<Rightarrow> bool" where
  "truthy JNull = False"
| "truthy (JBool b) = b"
| "truthy (JNum n) = (n \<noteq> 0)"
| "truthy (JStr s) = (s \<noteq> '''')"
| "truthy (JArr vs) = True"
| "truthy (JObj kvs) = True"

fun nat_digits :: "nat \<Rightarrow> string" where
  "nat_digits n =
     (if n < 10 then [''0123456789'' ! n]
      else nat_digits (n div 10) @ [''0123456789'' ! (n mod 10)])"

fun js_join :: "string list \<Rightarrow> string" where
  "js_join [] = ''''"
| "js_join [s] = s"
| "js_join (s # r) = s @ '','' @ js_join r"

fun js_String :: "json \<Rightarrow> string" where
  "js_String JNull = ''null''"
| "js_String (JBool b) = (if b then ''true'' else ''false'')"
| "js_String (JNum n) = (if n < 0 then ''-'' @ nat_digits (nat (- n)) else nat_digits (nat n))"
| "js_String (JStr s) = s"
| "js_String (JArr vs) = js_join (map (\<lambda>v. if v = JNull then '''' else js_String v) vs)"
| "js_String (JObj kvs) = ''[object Object]''"

text \<open>
  \<open>error.detail\<close>: reading a property of \<open>null\<close> throws a
  TypeError (the text is the engine's); of an object it is the value of the key (the
  last one, were a key repeated) or \<open>undefined\<close>, here
  \<open>None\<close>; of any other JSON value it is \<open>undefined\<close>.
\<close>

definition null_property_message :: string where
  "null_property_message = ''Cannot read properties of null''"

fun get_detail :: "json \<Rightarrow> Error + json option" where
  "get_detail JNull = Inl (TypeError null_property_message)"
| "get_detail (JObj kvs) = Inr (map_of (rev kvs) ''detail'')"
| "get_detail v = Inr None"

text \<open>Lines 43 to 48 of the module: what \<open>crawlSitemap\<close> makes of the response.\<close>

definition crawl_response :: "Response \<Rightarrow> Error + SitemapResult" where
  "crawl_response response =
     (case response of
        ErrorResponse parsed \<Rightarrow>
          (let error = (case parsed of
                          Inl e \<Rightarrow> JObj [(''detail'', JStr ''Unknown error'')]
                        | Inr v \<Rightarrow> v)
           in case get_detail error of
                Inl e \<Rightarrow> Inl e
              | Inr d \<Rightarrow>
                  Inl (Error (js_String
                    (case d of
                       None \<Rightarrow> JStr ''Crawl failed''
                     | Some v \<Rightarrow> if truthy v then v else JStr ''Crawl failed''))))
      | OkResponse parsed \<Rightarrow>
          (case parsed of Inl e \<Rightarrow> Inl e | Inr r \<Rightarrow> Inr r))"

text \<open>The one call of \<open>fetch\<close> that \<open>crawlSitemap\<close> writes.\<close>

definition crawl_call :: "string \<Rightarrow> CrawlRequest \<Rightarrow> FetchCall" where
  "crawl_call base request =
     \<lparr>fetch_url = base @ crawl_path, http_method = ''POST'',
      headers = [(''Content-Type'', ''application/json'')], body = request\<rparr>"

text \<open>
  \<open>crawlSitemap\<close> returns the calls of \<open>fetch\<close> it made, in
  order, and its outcome: \<open>Inl\<close> is the error the promise rejects with.
  \<open>base\<close> is the module constant \<open>API_BASE\<close>, the configured
  \<open>VITE_API_URL\<close> or the empty string.
\<close>

definition crawlSitemap ::
  "string \<Rightarrow> (FetchCall \<Rightarrow> FetchOutcome) \<Rightarrow> CrawlRequest \<Rightarrow> FetchCall list \<times> (Error + SitemapResult)"
where
  "crawlSitemap base fetch request =
     (let call = crawl_call base request
      in ([call],
          case fetch call of
            Rejected e \<Rightarrow> Inl e
          | Resolved response \<Rightarrow> crawl_response response))"

text \<open>Sample data: the result and the failures of the module's tests.\<close>

definition mockResult :: SitemapResult where
  "mockResult = \<lparr>status = Completed, root_url = ''https://example.com'', total_pages = 3,
                  total_links = 2, nodes = [], links = [], crawl_time_seconds = 3 / 2,
                  error = None\<rparr>"

definition mockRequest :: CrawlRequest where
  "mockRequest = \<lparr>url = ''https://example.com'', max_depth = None, max_pages = None\<rparr>"

definition completed_server :: "FetchCall \<Rightarrow> FetchOutcome" where
  "completed_server call = Resolved (OkResponse (Inr mockResult))"

definition invalid_url_server :: "FetchCall \<Rightarrow> FetchOutcome" where
  "invalid_url_server call =
     Resolved (ErrorResponse (Inr (JObj [(''detail'', JStr ''Invalid URL'')])))"

text \<open>A server, or a proxy before it, that answers 200 with a page that is not JSON.\<close>

definition html_page_server :: "FetchCall \<Rightarrow> FetchOutcome" where
  "html_page_server call = Resolved (OkResponse (Inl (SyntaxError ''Unexpected token <'')))"

section \<open>The scanner page (App.tsx)\<close>

record AppState =
  url_state :: string
  depth_state :: int
  maxPages :: int
  loading :: bool
  error_state :: "string option"
  result :: "SitemapResult option"
  selectedNode :: "PageNode option"

definition initialApp :: AppState where
  "initialApp = \<lparr>url_state = '''', depth_state = 3, maxPages = 100, loading = False,
                  error_state = None, result = None, selectedNode = None\<rparr>"

text \<open>The \<open>option\<close> elements of the two \<open>select\<close> controls.\<close>

definition depth_options :: "int list" where
  "depth_options = [1, 2, 3, 4, 5]"

definition maxPages_options :: "int list" where
  "maxPages_options = [25, 50, 100, 200, 500]"

text \<open>\<open>String.prototype.trim\<close> and \<open>startsWith\<close>, on ASCII strings.\<close>

definition js_whitespace :: "char \<Rightarrow> bool" where
  "js_whitespace c = (c \<in> set [CHR 0x09, CHR 0x0A, CHR 0x0B, CHR 0x0C, CHR 0x0D, CHR 0x20])"

definition trim :: "string \<Rightarrow> string" where
  "trim s = rev (dropWhile js_whitespace (rev (dropWhile js_whitespace s)))"

definition startsWith :: "string \<Rightarrow> string \<Rightarrow> bool" where
  "startsWith s p = prefix p s"

text \<open>The string \<open>handleScan\<close> hands to the \<open>URL\<close> constructor.\<close>

definition scan_candidate :: "string \<Rightarrow> string" where
  "scan_candidate u = (if startsWith u ''http'' then u else ''https://'' @ u)"

text \<open>
  \<open>handleScan\<close>. The \<open>URL\<close> constructor and its
  \<open>toString\<close> are the platform's: the parameter \<open>URL_href\<close>
  gives the serialised URL, or \<open>None\<close> where the constructor throws.
  \<open>t\<close> is the translation function and \<open>base\<close> the module
  constant \<open>API_BASE\<close>. The result is the list of \<open>fetch\<close>
  calls made and the state once the handler has finished. Whatever
  \<open>crawlSitemap\<close> rejects with is an \<open>Error\<close> object, so the
  handler shows its message.
\<close>

definition handleScan ::
  "(string \<Rightarrow> string option) \<Rightarrow> (string \<Rightarrow> string) \<Rightarrow> string \<Rightarrow> (FetchCall \<Rightarrow> FetchOutcome)
     \<Rightarrow> AppState \<Rightarrow> FetchCall list \<times> AppState"
where
  "handleScan URL_href t base fetch st =
     (case URL_href (scan_candidate (url_state st)) of
        None \<Rightarrow> ([], st\<lparr>error_state := Some (t ''error.invalidUrl'')\<rparr>)
      | Some href \<Rightarrow>
          (let st1 = st\<lparr>loading := True, error_state := None, result := None,
                        selectedNode := None\<rparr>;
               (calls, outcome) =
                 crawlSitemap base fetch
                   \<lparr>url = href, max_depth = Some (depth_state st),
                    max_pages = Some (maxPages st)\<rparr>;
               st2 = (case outcome of
                        Inr data \<Rightarrow> st1\<lparr>result := Some data\<rparr>
                      | Inl err \<Rightarrow> st1\<lparr>error_state := Some (message err)\<rparr>)
           in (calls, st2\<lparr>loading := False\<rparr>)))"

definition handleReset :: "AppState \<Rightarrow> AppState" where
  "handleReset st = st\<lparr>result := None, selectedNode := None, error_state := None,
                        url_state := ''''\<rparr>"

text \<open>The scan button is disabled while loading or while the trimmed input is empty.\<close>

definition scan_disabled :: "AppState \<Rightarrow> bool" where
  "scan_disabled st = (loading st \<or> trim (url_state st) = '''')"

text \<open>
  The states the page can reach: the user types, picks one of the offered options in a
  \<open>select\<close>, scans, resets or selects a node.
\<close>

inductive app_reachable :: "AppState \<Rightarrow> bool" where
  app_initial: "app_reachable initialApp"
| app_setUrl: "app_reachable st \<Longrightarrow> app_reachable (st\<lparr>url_state := v\<rparr>)"
| app_setDepth:
    "app_reachable st \<Longrightarrow> v \<in> set depth_options \<Longrightarrow> app_reachable (st\<lparr>depth_state := v\<rparr>)"
| app_setMaxPages:
    "app_reachable st \<Longrightarrow> v \<in> set maxPages_options \<Longrightarrow> app_reachable (st\<lparr>maxPages := v\<rparr>)"
| app_scan:
    "app_reachable st \<Longrightarrow> app_reachable (snd (handleScan URL_href t base fetch st))"
| app_reset: "app_reachable st \<Longrightarrow> app_reachable (handleReset st)"
| app_select: "app_reachable st \<Longrightarrow> app_reachable (st\<lparr>selectedNode := n\<rparr>)"

text \<open>
  Following the spec's words instead of the handler: the prefix is decided on the
  trimmed input. This string is compared with \<open>scan_candidate\<close>, which is the handler's.
\<close>

definition scan_candidate_trimmed :: "string \<Rightarrow> string" where
  "scan_candidate_trimmed u = (if startsWith (trim u) ''http'' then u else ''https://'' @ u)"

text \<open>
  The platform's URL parser on the strings of the examples below. It removes ASCII tab
  and newline from its input before parsing, so \<open>https://\<close> followed by a
  tab and \<open>http\<close> is the URL \<open>https://http/\<close>, while a tab
  followed by \<open>http\<close> has no scheme and is refused, as is a host with a
  space in it.
\<close>

definition tab_http :: string where
  "tab_http = CHR 0x09 # ''http''"

definition sample_URL_href :: "string \<Rightarrow> string option" where
  "sample_URL_href s =
     (if s = ''https://example.com'' then Some ''https://example.com/''
      else if s = ''https://'' @ tab_http then Some ''https://http/''
      else None)"

definition no_translation :: "string \<Rightarrow> string" where
  "no_translation k = k"

section \<open>The graph component (components/SitemapGraph.tsx)\<close>








section \<open>Device identification (utils/fingerprint.ts)\<close>

text \<open>
  The module variable \<open>cachedDeviceId\<close> and the \<open>device_id\<close> item of localStorage are
  the state. What one call meets outside is its environment: the visitor id of
  FingerprintJS, or \<open>None\<close> when loading or reading it throws, and the text that
  \<open>Math.random().toString(36).substring(2, 15)\<close> gives. A string is truthy when it is
  not empty.
\<close>

record DeviceState =
  cachedDeviceId :: "string option"
  device_id_item :: "string option"

record CallEnv =
  visitorId :: "string option"
  random_text :: string

text \<open>The body after the cache test: the \<open>try\<close> block and its \<open>catch\<close>.\<close>

definition fallback_id :: "CallEnv \<Rightarrow> DeviceState \<Rightarrow> string \<times> DeviceState" where
  "fallback_id env st =
     (let randomId = ''fallback_'' @ random_text env
      in (randomId, st\<lparr>device_id_item := Some randomId, cachedDeviceId := Some randomId\<rparr>))"

definition identify :: "CallEnv \<Rightarrow> DeviceState \<Rightarrow> string \<times> DeviceState" where
  "identify env st =
     (case visitorId env of
        Some v \<Rightarrow> (v, st\<lparr>cachedDeviceId := Some v\<rparr>)
      | None \<Rightarrow>
          (case device_id_item st of
             Some stored \<Rightarrow>
               if stored \<noteq> [] then (stored, st\<lparr>cachedDeviceId := Some stored\<rparr>)
               else fallback_id env st
           | None \<Rightarrow> fallback_id env st))"

definition getDeviceId :: "CallEnv \<Rightarrow> DeviceState \<Rightarrow> string \<times> DeviceState" where
  "getDeviceId env st =
     (case cachedDeviceId st of
        Some c \<Rightarrow> if c \<noteq> [] then (c, st) else identify env st
      | None \<Rightarrow> identify env st)"

text \<open>A session: the calls one after the other, with the ids they return.\<close>

fun device_calls :: "CallEnv list \<Rightarrow> DeviceState \<Rightarrow> string list" where
  "device_calls [] st = []"
| "device_calls (env # envs) st =
     (case getDeviceId env st of (i, st') \<Rightarrow> i # device_calls envs st')"



section \<open>The crawl engine\<close>

text \<open>
  Modelled from the spec: the crawl engine (URL Frontier, Fetcher Pool, Link Extractor,
  Graph Builder, Job State Machine and Result Assembler of the spec's sections 3 to 7)
  is the backend of the repository, which is not among the sources; only its client is.
  The definitions of this section follow the spec's words.

  What is modelled: one job, run by one worker (the spec's workers share the frontier
  and the graph through atomic operations; here these operations run one after the
  other, in breadth-first order). The web is a parameter: the normal form of a URL, the
  scope (decided on the normal form), whether a root URL is well-formed, and what
  fetching a URL gives: nothing (the fetch failed), or the title and the links that the
  link extractor delivers, already resolved. Every fetch answers for the URL asked:
  redirects are left out, and so is the wall-clock timeout.
\<close>

record Site =
  normal_form :: "string \<Rightarrow> string"
  in_scope :: "string \<Rightarrow> bool"
  valid_root :: "string \<Rightarrow> bool"
  fetch_page :: "string \<Rightarrow> (string option \<times> string list) option"

record CrawlConfig =
  cfg_root :: string
  cfg_max_depth :: nat
  cfg_max_pages :: nat

record GraphNode =
  gn_url :: string
  gn_title :: "string option"
  gn_depth :: nat

text \<open>
  Modelled from the spec: section 3, the mutable state that a job owns: the frontier
  (a first-in first-out queue of URLs with their depths), the visited set (the normal
  forms admitted so far, queued or fetched), the Graph Builder's nodes, keyed by
  normal form in order of creation, and its edges. \<open>reached\<close> is a history
  of the job, not part of the engine: every time a URL is reached, its normal form and
  the depth at which it is reached are appended.
\<close>

record CrawlJob =
  frontier :: "(string \<times> nat) list"
  visited :: "string list"
  graph_nodes :: "(string \<times> GraphNode) list"
  graph_edges :: "(string \<times> string) list"
  reached :: "(string \<times> nat) list"

definition empty_job :: CrawlJob where
  "empty_job = \<lparr>frontier = [], visited = [], graph_nodes = [], graph_edges = [], reached = []\<rparr>"

text \<open>
  Modelled from the spec: section 4.1, the rules of \<open>enqueue\<close>: a URL is
  rejected if its normal form is already visited or queued, if the depth exceeds the
  job's maximal depth, if the number of pages admitted has reached the maximal page
  count, or if it is out of scope. Accepting a URL marks it visited at once.
\<close>

definition admits :: "CrawlConfig \<Rightarrow> Site \<Rightarrow> string \<Rightarrow> nat \<Rightarrow> CrawlJob \<Rightarrow> bool" where
  "admits cfg site u d st =
     (normal_form site u \<notin> set (visited st)
      \<and> d \<le> cfg_max_depth cfg
      \<and> length (visited st) < cfg_max_pages cfg
      \<and> in_scope site (normal_form site u))"

definition enqueue :: "CrawlConfig \<Rightarrow> Site \<Rightarrow> string \<Rightarrow> nat \<Rightarrow> CrawlJob \<Rightarrow> CrawlJob" where
  "enqueue cfg site u d st =
     (if admits cfg site u d st
      then st\<lparr>frontier := frontier st @ [(u, d)], visited := visited st @ [normal_form site u]\<rparr>
      else st)"

text \<open>
  Modelled from the spec: section 4.4, the Graph Builder. \<open>addNode\<close> is
  idempotent per normal form, the first call wins for depth and title;
  \<open>addEdge\<close> is idempotent per ordered pair.
\<close>

definition addNode :: "Site \<Rightarrow> string \<Rightarrow> nat \<Rightarrow> string option \<Rightarrow> CrawlJob \<Rightarrow> CrawlJob" where
  "addNode site u d t st =
     (if normal_form site u \<in> fst ` set (graph_nodes st) then st
      else st\<lparr>graph_nodes := graph_nodes st @
                 [(normal_form site u, \<lparr>gn_url = u, gn_title = t, gn_depth = d\<rparr>)]\<rparr>)"

definition addEdge :: "Site \<Rightarrow> string \<Rightarrow> string \<Rightarrow> CrawlJob \<Rightarrow> CrawlJob" where
  "addEdge site s t st =
     (if (normal_form site s, normal_form site t) \<in> set (graph_edges st) then st
      else st\<lparr>graph_edges := graph_edges st @ [(normal_form site s, normal_form site t)]\<rparr>)"

definition reach :: "Site \<Rightarrow> string \<Rightarrow> nat \<Rightarrow> CrawlJob \<Rightarrow> CrawlJob" where
  "reach site u d st = st\<lparr>reached := reached st @ [(normal_form site u, d)]\<rparr>"

text \<open>
  Modelled from the spec: section 2's data flow and sections 4.1 and 4.4, for one link
  \<open>l\<close> found on the page \<open>u\<close> of depth \<open>d\<close>. A
  link out of scope produces a node, of depth \<open>d + 1\<close> and never enqueued,
  and an edge. A link in scope is offered to the frontier; the edge is recorded when
  its target is a page of the crawl (admitted now or before), so that both ends of an
  edge are nodes of the result; a target that the frontier refuses for depth or budget
  is neither crawled nor recorded.
\<close>

definition follow_link :: "CrawlConfig \<Rightarrow> Site \<Rightarrow> string \<Rightarrow> nat \<Rightarrow> string \<Rightarrow> CrawlJob \<Rightarrow> CrawlJob" where
  "follow_link cfg site u d l st =
     (let st1 = reach site l (d + 1) st in
      if in_scope site (normal_form site l)
      then (let st2 = enqueue cfg site l (d + 1) st1 in
            if normal_form site l \<in> set (visited st2) then addEdge site u l st2 else st2)
      else addEdge site u l (addNode site l (d + 1) None st1))"

text \<open>
  Modelled from the spec: sections 4.2 and 4.3, for one page taken from the frontier.
  A failed fetch records the page as a node without outgoing links and the crawl goes
  on; otherwise the page is recorded with its title and each of its links is followed.
\<close>

definition expand :: "CrawlConfig \<Rightarrow> Site \<Rightarrow> string \<Rightarrow> nat \<Rightarrow> CrawlJob \<Rightarrow> CrawlJob" where
  "expand cfg site u d st =
     (case fetch_page site u of
        None \<Rightarrow> addNode site u d None st
      | Some (t, ls) \<Rightarrow> fold (follow_link cfg site u d) ls (addNode site u d t st))"

text \<open>The budget left: what the loop below uses up.\<close>

definition budget_left :: "CrawlConfig \<Rightarrow> CrawlJob \<Rightarrow> nat" where
  "budget_left cfg st = 2 * (cfg_max_pages cfg - length (visited st)) + length (frontier st)"

text \<open>
  Modelled from the spec: sections 4.1 and 5, the job's loop. Pages leave the frontier
  first in, first out, until it is empty.
\<close>

function crawl_loop :: "CrawlConfig \<Rightarrow> Site \<Rightarrow> CrawlJob \<Rightarrow> CrawlJob" where
  "crawl_loop cfg site st =
     (case frontier st of
        [] \<Rightarrow> st
      | (u, d) # q \<Rightarrow> crawl_loop cfg site (expand cfg site u d (st\<lparr>frontier := q\<rparr>)))"
  by pat_completeness auto

text \<open>
  Modelled from the spec: sections 4.5, 4.6 and 7. The job fails, with an error and an
  empty graph, when the root is not well-formed, when it cannot be fetched or when no
  page was fetched at all; otherwise the frontier is seeded with the root at depth 0,
  drained, and the result assembled from the Graph Builder's state. The elapsed time
  is the clock's.
\<close>

definition failed_result :: "CrawlConfig \<Rightarrow> real \<Rightarrow> string \<Rightarrow> SitemapResult" where
  "failed_result cfg elapsed msg =
     \<lparr>status = Failed, root_url = cfg_root cfg, total_pages = 0, total_links = 0,
      nodes = [], links = [], crawl_time_seconds = elapsed, error = Some msg\<rparr>"

definition assemble_node :: "(string \<times> string) list \<Rightarrow> string \<times> GraphNode \<Rightarrow> PageNode" where
  "assemble_node es kn =
     \<lparr>node_id = fst kn, node_url = gn_url (snd kn), title = gn_title (snd kn),
      depth = int (gn_depth (snd kn)),
      outgoing_links = int (length (filter (\<lambda>e. fst e = fst kn) es)),
      incoming_links = int (length (filter (\<lambda>e. snd e = fst kn) es))\<rparr>"

definition assemble :: "CrawlConfig \<Rightarrow> real \<Rightarrow> CrawlJob \<Rightarrow> SitemapResult" where
  "assemble cfg elapsed st =
     \<lparr>status = Completed, root_url = cfg_root cfg,
      total_pages = int (length (graph_nodes st)),
      total_links = int (length (graph_edges st)),
      nodes = map (assemble_node (graph_edges st)) (graph_nodes st),
      links = map (\<lambda>e. \<lparr>source = fst e, target = snd e\<rparr>) (graph_edges st),
      crawl_time_seconds = elapsed, error = None\<rparr>"

definition seed :: "CrawlConfig \<Rightarrow> Site \<Rightarrow> CrawlJob" where
  "seed cfg site = enqueue cfg site (cfg_root cfg) 0 (reach site (cfg_root cfg) 0 empty_job)"

definition crawl_job :: "CrawlConfig \<Rightarrow> Site \<Rightarrow> CrawlJob" where
  "crawl_job cfg site = crawl_loop cfg site (seed cfg site)"

definition crawl :: "CrawlConfig \<Rightarrow> Site \<Rightarrow> real \<Rightarrow> SitemapResult" where
  "crawl cfg site elapsed =
     (if \<not> valid_root site (cfg_root cfg) then failed_result cfg elapsed ''invalid root URL''
      else if fetch_page site (cfg_root cfg) = None
        then failed_result cfg elapsed ''root URL unreachable''
      else if graph_nodes (crawl_job cfg site) = []
        then failed_result cfg elapsed ''no page fetched''
      else assemble cfg elapsed (crawl_job cfg site))"







text \<open>Every admitted page has its node or is still queued.\<close>

definition covered :: "Site \<Rightarrow> CrawlJob \<Rightarrow> bool" where
  "covered site st =
     (\<forall>k \<in> set (visited st).
        k \<in> fst ` set (graph_nodes st) \<or> k \<in> (\<lambda>e. normal_form site (fst e)) ` set (frontier st))"


text \<open>Both ends of an edge are nodes, or its target is an admitted page still to be fetched.\<close>

definition inv_edges :: "Site \<Rightarrow> CrawlJob \<Rightarrow> bool" where
  "inv_edges site st =
     (\<forall>e \<in> set (graph_edges st).
        fst e \<in> fst ` set (graph_nodes st)
        \<and> (snd e \<in> fst ` set (graph_nodes st) \<or> snd e \<in> set (visited st)))"


section \<open>Properties of the token store\<close>

lemma credits_nonneg_initial: "credits_nonneg initialTokenState"
  by (simp add: credits_nonneg_def initialTokenState_def)

lemma credits_nonneg_clearToken: "credits_nonneg (clearToken st)"
  by (simp add: credits_nonneg_def clearToken_def)

lemma credits_nonneg_setToken:
  "credits_nonneg (setToken t st) \<longleftrightarrow> (case t of None \<Rightarrow> True | Some i \<Rightarrow> 0 \<le> remaining_generations i)"
  by (simp add: credits_nonneg_def setToken_def)




section \<open>Properties of the crawl API client\<close>

lemma crawlSitemap_calls: "fst (crawlSitemap base fetch request) = [crawl_call base request]"
  by (simp add: crawlSitemap_def Let_def)

lemma crawlSitemap_outcome:
  "snd (crawlSitemap base fetch request) =
     (case fetch (crawl_call base request) of
        Rejected e \<Rightarrow> Inl e
      | Resolved response \<Rightarrow> crawl_response response)"
  by (simp add: crawlSitemap_def Let_def)




text \<open>
  Claim C8. A call of \<open>crawlSitemap\<close> makes one call of \<open>fetch\<close> and no other; its
  outcome is what that one response gives (nothing else the network would answer is
  looked at, so nothing is polled, retried or streamed): an OK response with a parsed
  body yields that body, at once.
\<close>

theorem crawlSitemap_single_request:
  "fst (crawlSitemap base fetch request) = [crawl_call base request]
   \<and> length (fst (crawlSitemap base fetch request)) = 1
   \<and> crawlSitemap base fetch request =
       crawlSitemap base (\<lambda>c. fetch (crawl_call base request)) request
   \<and> snd (crawlSitemap base (\<lambda>c. Resolved (OkResponse (Inr r))) request) = Inr r"
  by (simp add: crawlSitemap_def Let_def crawl_response_def)

text \<open>
  Claim C3, as stated, fails: an OK response whose body is not JSON makes
  \<open>crawlSitemap\<close> raise although the response is OK; and a \<open>detail\<close> that is a list of
  validation errors gives the message "[object Object]", an empty \<open>detail\<close> the message
  "Crawl failed".
\<close>

theorem crawlSitemap_raises_on_ok_response:
  "html_page_server (crawl_call [] mockRequest)
     = Resolved (OkResponse (Inl (SyntaxError ''Unexpected token <'')))
   \<and> ok (OkResponse (Inl (SyntaxError ''Unexpected token <'')))
   \<and> snd (crawlSitemap [] html_page_server mockRequest) = Inl (SyntaxError ''Unexpected token <'')
   \<and> crawl_response (ErrorResponse (Inr (JObj [(''detail'', JArr [JObj [(''msg'', JStr ''bad'')]])])))
       = Inl (Error ''[object Object]'')
   \<and> crawl_response (ErrorResponse (Inr (JObj [(''detail'', JStr [])])))
       = Inl (Error ''Crawl failed'')"
  by (simp add: html_page_server_def crawlSitemap_def crawl_response_def Let_def)

text \<open>
  Claim C3, amended. \<open>crawlSitemap\<close> raises whenever the response is not OK, and also
  when \<open>fetch\<close> rejects or the body of an OK response does not parse, and in no other
  case. For a response that is not OK the message is "Unknown error" when the body
  does not parse, the \<open>detail\<close> of the parsed object when that is a string and not
  empty, and "Crawl failed" when the parsed object has no \<open>detail\<close> or a falsy one.
\<close>

theorem crawlSitemap_error_message:
  "(\<not> ok response \<longrightarrow> isl (crawl_response response))
   \<and> (isl (snd (crawlSitemap base fetch request)) \<longleftrightarrow>
        (case fetch (crawl_call base request) of
           Rejected e \<Rightarrow> True
         | Resolved (OkResponse parsed) \<Rightarrow> isl parsed
         | Resolved (ErrorResponse parsed) \<Rightarrow> True))
   \<and> crawl_response (ErrorResponse (Inl e)) = Inl (Error ''Unknown error'')
   \<and> (map_of (rev kvs) ''detail'' = Some (JStr d) \<and> d \<noteq> [] \<longrightarrow>
        crawl_response (ErrorResponse (Inr (JObj kvs))) = Inl (Error d))
   \<and> (map_of (rev kvs) ''detail'' = None \<longrightarrow>
        crawl_response (ErrorResponse (Inr (JObj kvs))) = Inl (Error ''Crawl failed''))
   \<and> (map_of (rev kvs) ''detail'' = Some v \<and> \<not> truthy v \<longrightarrow>
        crawl_response (ErrorResponse (Inr (JObj kvs))) = Inl (Error ''Crawl failed''))"
proof -
  have raises: "\<not> ok response \<longrightarrow> isl (crawl_response response)"
  proof (cases response)
    case (OkResponse parsed)
    then show ?thesis by simp
  next
    case (ErrorResponse parsed)
    then show ?thesis
      by (simp add: crawl_response_def Let_def split: sum.splits option.splits)
  qed
  have only: "isl (snd (crawlSitemap base fetch request)) \<longleftrightarrow>
        (case fetch (crawl_call base request) of
           Rejected e \<Rightarrow> True
         | Resolved (OkResponse parsed) \<Rightarrow> isl parsed
         | Resolved (ErrorResponse parsed) \<Rightarrow> True)"
  proof (cases "fetch (crawl_call base request)")
    case (Rejected e)
    then show ?thesis by (simp add: crawlSitemap_outcome)
  next
    case (Resolved r)
    show ?thesis
    proof (cases r)
      case (OkResponse parsed)
      with Resolved show ?thesis
        by (simp add: crawlSitemap_outcome crawl_response_def split: sum.splits)
    next
      case (ErrorResponse parsed)
      with Resolved show ?thesis
        by (simp add: crawlSitemap_outcome crawl_response_def Let_def
            split: sum.splits option.splits)
    qed
  qed
  have unknown: "crawl_response (ErrorResponse (Inl e)) = Inl (Error ''Unknown error'')"
    by (simp add: crawl_response_def)
  have detail: "map_of (rev kvs) ''detail'' = Some (JStr d) \<and> d \<noteq> [] \<longrightarrow>
        crawl_response (ErrorResponse (Inr (JObj kvs))) = Inl (Error d)"
    by (simp add: crawl_response_def)
  have absent: "map_of (rev kvs) ''detail'' = None \<longrightarrow>
        crawl_response (ErrorResponse (Inr (JObj kvs))) = Inl (Error ''Crawl failed'')"
    by (simp add: crawl_response_def)
  have falsy: "map_of (rev kvs) ''detail'' = Some v \<and> \<not> truthy v \<longrightarrow>
        crawl_response (ErrorResponse (Inr (JObj kvs))) = Inl (Error ''Crawl failed'')"
    by (simp add: crawl_response_def)
  from raises only unknown detail absent falsy show ?thesis
    by blast
qed

theorem crawlSitemap_error_message_witness:
  "\<not> ok (ErrorResponse (Inr (JObj [(''detail'', JStr ''Invalid URL'')])))
   \<and> isl (snd (crawlSitemap [] invalid_url_server mockRequest))
   \<and> crawl_response (ErrorResponse (Inr (JObj [(''detail'', JStr ''Invalid URL'')])))
       = Inl (Error ''Invalid URL'')
   \<and> crawl_response (ErrorResponse (Inr (JObj [(''code'', JNum 7)]))) = Inl (Error ''Crawl failed'')
   \<and> crawl_response (ErrorResponse (Inr (JObj [(''detail'', JNull)]))) = Inl (Error ''Crawl failed'')
   \<and> crawl_response (ErrorResponse (Inl (SyntaxError ''Parse error''))) = Inl (Error ''Unknown error'')"
  using crawlSitemap_error_message
          [of "ErrorResponse (Inr (JObj [(''detail'', JStr ''Invalid URL'')]))"
              "[]" invalid_url_server mockRequest "SyntaxError ''Parse error''"
              "[(''detail'', JStr ''Invalid URL'')]" "''Invalid URL''" JNull]
        crawlSitemap_error_message
          [of "ErrorResponse (Inr (JObj [(''code'', JNum 7)]))"
              "[]" invalid_url_server mockRequest "SyntaxError ''Parse error''"
              "[(''code'', JNum 7)]" "''x''" JNull]
        crawlSitemap_error_message
          [of "ErrorResponse (Inr (JObj [(''detail'', JNull)]))"
              "[]" invalid_url_server mockRequest "SyntaxError ''Parse error''"
              "[(''detail'', JNull)]" "''x''" JNull]
  by (simp add: invalid_url_server_def)


section \<open>Properties of the scanner page\<close>

lemma handleScan_depth: "depth_state (snd (handleScan URL_href t base fetch st)) = depth_state st"
  by (simp add: handleScan_def Let_def crawlSitemap_def split: option.splits sum.splits)

lemma app_reachable_depth: "app_reachable st \<Longrightarrow> depth_state st \<in> set depth_options"
proof (induction rule: app_reachable.induct)
  case app_initial
  then show ?case by (simp add: initialApp_def depth_options_def)
next
  case (app_scan st URL_href t base fetch)
  then show ?case by (simp add: handleScan_depth)
next
  case (app_reset st)
  then show ?case by (simp add: handleReset_def)
qed simp_all

lemma depth_options_range: "set depth_options = {1..5}"
proof (rule set_eqI)
  fix x :: int
  have "x \<in> set depth_options \<longleftrightarrow> 1 \<le> x \<and> x \<le> 5"
    unfolding depth_options_def by (simp, arith)
  then show "x \<in> set depth_options \<longleftrightarrow> x \<in> {1..5}"
    by (simp only: atLeastAtMost_iff)
qed

lemma handleScan_calls:
  "fst (handleScan URL_href t base fetch st) =
     (case URL_href (scan_candidate (url_state st)) of
        None \<Rightarrow> []
      | Some href \<Rightarrow>
          [crawl_call base \<lparr>url = href, max_depth = Some (depth_state st),
                            max_pages = Some (maxPages st)\<rparr>])"
  by (simp add: handleScan_def Let_def crawlSitemap_def split: option.splits)

text \<open>
  Claim C2. A crawl request has a \<open>url\<close> and optional integers \<open>max_depth\<close> and
  \<open>max_pages\<close>. The page starts with depth 3 and 100 pages; the depth control offers
  the integers 1 to 5 and the depth of every reachable state is one of them. Every
  call of \<open>crawlSitemap\<close> issues exactly one POST to \<open>/api/v1/sitemap/crawl/sync\<close>
  (after the configured base, empty by default) with the request as its JSON body, and
  a scan whose input parses makes exactly one such call, with the parsed URL, the
  selected depth and the selected number of pages.
\<close>

theorem crawl_request_defaults_and_post:
  assumes "app_reachable st"
  shows "depth_state initialApp = 3 \<and> maxPages initialApp = 100
       \<and> set depth_options = {1..5}
       \<and> depth_state st \<in> {1..5}
       \<and> API_BASE None = []
       \<and> fst (crawlSitemap base fetch request) =
           [\<lparr>fetch_url = base @ ''/api/v1/sitemap/crawl/sync'', http_method = ''POST'',
             headers = [(''Content-Type'', ''application/json'')], body = request\<rparr>]
       \<and> fst (handleScan URL_href t base fetch st) =
           (case URL_href (scan_candidate (url_state st)) of
              None \<Rightarrow> []
            | Some href \<Rightarrow>
                [\<lparr>fetch_url = base @ ''/api/v1/sitemap/crawl/sync'', http_method = ''POST'',
                  headers = [(''Content-Type'', ''application/json'')],
                  body = \<lparr>url = href, max_depth = Some (depth_state st),
                           max_pages = Some (maxPages st)\<rparr>\<rparr>])"
proof -
  have d: "depth_state st \<in> {1..5}"
    using app_reachable_depth [OF assms] depth_options_range by simp
  have post: "fst (crawlSitemap base fetch request) =
           [\<lparr>fetch_url = base @ ''/api/v1/sitemap/crawl/sync'', http_method = ''POST'',
             headers = [(''Content-Type'', ''application/json'')], body = request\<rparr>]"
    by (simp add: crawlSitemap_calls crawl_call_def crawl_path_def)
  have scan: "fst (handleScan URL_href t base fetch st) =
           (case URL_href (scan_candidate (url_state st)) of
              None \<Rightarrow> []
            | Some href \<Rightarrow>
                [\<lparr>fetch_url = base @ ''/api/v1/sitemap/crawl/sync'', http_method = ''POST'',
                  headers = [(''Content-Type'', ''application/json'')],
                  body = \<lparr>url = href, max_depth = Some (depth_state st),
                           max_pages = Some (maxPages st)\<rparr>\<rparr>])"
    by (simp add: handleScan_calls crawl_call_def crawl_path_def split: option.splits)
  have init: "depth_state initialApp = 3 \<and> maxPages initialApp = 100"
    by (simp add: initialApp_def)
  have base0: "API_BASE None = []"
    by (simp add: API_BASE_def)
  from d post scan init base0 depth_options_range show ?thesis
    by simp
qed

theorem crawl_request_defaults_and_post_witness:
  "app_reachable (initialApp\<lparr>url_state := ''https://example.com'', depth_state := 2\<rparr>)
   \<and> depth_state (initialApp\<lparr>url_state := ''https://example.com'', depth_state := 2\<rparr>) \<in> {1..5}
   \<and> fst (handleScan sample_URL_href no_translation [] completed_server
            (initialApp\<lparr>url_state := ''https://example.com'', depth_state := 2\<rparr>)) =
       [\<lparr>fetch_url = ''/api/v1/sitemap/crawl/sync'', http_method = ''POST'',
         headers = [(''Content-Type'', ''application/json'')],
         body = \<lparr>url = ''https://example.com/'', max_depth = Some 2, max_pages = Some 100\<rparr>\<rparr>]"
proof -
  have "app_reachable (initialApp\<lparr>url_state := ''https://example.com''\<rparr>)"
    by (rule app_setUrl [OF app_initial])
  then have r: "app_reachable (initialApp\<lparr>url_state := ''https://example.com'', depth_state := 2\<rparr>)"
    using app_setDepth [of "initialApp\<lparr>url_state := ''https://example.com''\<rparr>" 2]
    by (simp add: depth_options_def)
  show ?thesis
    using r crawl_request_defaults_and_post
              [OF r, of "[]" completed_server mockRequest sample_URL_href no_translation]
    by (simp add: scan_candidate_def startsWith_def sample_URL_href_def initialApp_def)
qed

text \<open>
  Claim C7, as stated, fails: the handler decides the prefix on the input as typed, not
  on the trimmed input. For a tab followed by \<open>http\<close> the trimmed input starts with
  \<open>http\<close>, so the claim parses the input without a prefix, which fails; the handler
  prefixes it, the result parses, and a crawl request goes out.
\<close>

theorem trimmed_prefix_counterexample:
  "scan_candidate_trimmed tab_http = tab_http
   \<and> sample_URL_href (scan_candidate_trimmed tab_http) = None
   \<and> scan_candidate tab_http = ''https://'' @ tab_http
   \<and> fst (handleScan sample_URL_href no_translation [] completed_server
            (initialApp\<lparr>url_state := tab_http\<rparr>)) =
       [crawl_call [] \<lparr>url = ''https://http/'', max_depth = Some 3, max_pages = Some 100\<rparr>]
   \<and> error_state (snd (handleScan sample_URL_href no_translation [] completed_server
            (initialApp\<lparr>url_state := tab_http\<rparr>))) = None"
  by (simp add: scan_candidate_trimmed_def scan_candidate_def startsWith_def trim_def
      js_whitespace_def tab_http_def sample_URL_href_def handleScan_def Let_def
      crawlSitemap_def completed_server_def crawl_response_def initialApp_def)

text \<open>
  Claim C7, amended. The handler prefixes \<open>https://\<close> exactly when the input as typed
  does not start with \<open>http\<close>; for every input for which the resulting string cannot
  be parsed as a URL it reports the invalid-URL error, changes nothing else and issues
  no crawl request.
\<close>

theorem invalid_url_no_request:
  assumes "URL_href (scan_candidate (url_state st)) = None"
  shows "handleScan URL_href t base fetch st = ([], st\<lparr>error_state := Some (t ''error.invalidUrl'')\<rparr>)
       \<and> scan_candidate (url_state st) =
           (if prefix ''http'' (url_state st) then url_state st else ''https://'' @ url_state st)"
  using assms by (simp add: handleScan_def scan_candidate_def startsWith_def)

theorem invalid_url_no_request_witness:
  "sample_URL_href (scan_candidate (url_state (initialApp\<lparr>url_state := ''ht tp://invalid url with spaces''\<rparr>))) = None
   \<and> fst (handleScan sample_URL_href no_translation [] completed_server
            (initialApp\<lparr>url_state := ''ht tp://invalid url with spaces''\<rparr>)) = []
   \<and> error_state (snd (handleScan sample_URL_href no_translation [] completed_server
            (initialApp\<lparr>url_state := ''ht tp://invalid url with spaces''\<rparr>))) = Some ''error.invalidUrl''"
proof -
  have h: "sample_URL_href (scan_candidate (url_state (initialApp\<lparr>url_state := ''ht tp://invalid url with spaces''\<rparr>))) = None"
    by (simp add: sample_URL_href_def scan_candidate_def startsWith_def tab_http_def)
  show ?thesis
    using h invalid_url_no_request
              [of sample_URL_href "initialApp\<lparr>url_state := ''ht tp://invalid url with spaces''\<rparr>"
                  no_translation "[]" completed_server]
    by (simp add: no_translation_def)
qed


section \<open>Properties of the graph component\<close>






section \<open>Properties of the device identification\<close>





lemma length_device_calls: "length (device_calls envs st) = length envs"
  by (induction envs arbitrary: st) (simp_all split: prod.splits)





section \<open>Properties of the crawl engine\<close>

text \<open>The loop ends: every page taken from the frontier uses up budget.\<close>

lemma budget_left_enqueue: "budget_left cfg (enqueue cfg site u d st) \<le> budget_left cfg st"
proof (cases "admits cfg site u d st")
  case True
  then have "length (visited st) < cfg_max_pages cfg"
    by (simp add: admits_def)
  then have "2 * (cfg_max_pages cfg - Suc (length (visited st))) + 1
               \<le> 2 * (cfg_max_pages cfg - length (visited st))"
    by arith
  with True show ?thesis
    by (simp add: enqueue_def budget_left_def)
next
  case False
  then show ?thesis
    by (simp add: enqueue_def)
qed

lemma budget_left_addNode [simp]: "budget_left cfg (addNode site u d t st) = budget_left cfg st"
  by (simp add: addNode_def budget_left_def)

lemma budget_left_addEdge [simp]: "budget_left cfg (addEdge site s t st) = budget_left cfg st"
  by (simp add: addEdge_def budget_left_def)

lemma budget_left_reach [simp]: "budget_left cfg (reach site u d st) = budget_left cfg st"
  by (simp add: reach_def budget_left_def)

lemma budget_left_follow_link:
  "budget_left cfg (follow_link cfg site u d l st) \<le> budget_left cfg st"
proof -
  have "budget_left cfg (enqueue cfg site l (d + 1) (reach site l (d + 1) st)) \<le> budget_left cfg st"
    using budget_left_enqueue [of cfg site l "d + 1" "reach site l (d + 1) st"] by simp
  then show ?thesis
    by (simp add: follow_link_def Let_def)
qed

lemma budget_left_fold:
  "budget_left cfg (fold (follow_link cfg site u d) ls st) \<le> budget_left cfg st"
proof (induction ls arbitrary: st)
  case Nil
  then show ?case by simp
next
  case (Cons l ls)
  have "budget_left cfg (fold (follow_link cfg site u d) ls (follow_link cfg site u d l st))
          \<le> budget_left cfg (follow_link cfg site u d l st)"
    by (rule Cons.IH)
  also have "\<dots> \<le> budget_left cfg st"
    by (rule budget_left_follow_link)
  finally show ?case by simp
qed

lemma budget_left_expand: "budget_left cfg (expand cfg site u d st) \<le> budget_left cfg st"
proof (cases "fetch_page site u")
  case None
  then show ?thesis by (simp add: expand_def)
next
  case (Some p)
  obtain t ls where p: "p = (t, ls)" by (cases p)
  have "budget_left cfg (fold (follow_link cfg site u d) ls (addNode site u d t st))
          \<le> budget_left cfg (addNode site u d t st)"
    by (rule budget_left_fold)
  with Some p show ?thesis by (simp add: expand_def)
qed

termination crawl_loop
proof (relation "measure (\<lambda>(cfg, site, st). budget_left cfg st)")
  show "wf (measure (\<lambda>(cfg, site, st). budget_left cfg st))"
    by simp
next
  fix cfg :: CrawlConfig and site :: Site and st :: CrawlJob and x q u d
  assume "frontier st = x # q" and "(u, d) = x"
  then have f: "frontier st = (u, d) # q"
    by simp
  have "budget_left cfg (expand cfg site u d (st\<lparr>frontier := q\<rparr>)) \<le> budget_left cfg (st\<lparr>frontier := q\<rparr>)"
    by (rule budget_left_expand)
  also have "\<dots> < budget_left cfg st"
    using f by (simp add: budget_left_def)
  finally show "((cfg, site, expand cfg site u d (st\<lparr>frontier := q\<rparr>)), (cfg, site, st))
          \<in> measure (\<lambda>(cfg, site, st). budget_left cfg st)"
    by simp
qed


lemma enqueue_fields [simp]:
  "graph_nodes (enqueue cfg site u d st) = graph_nodes st"
  "graph_edges (enqueue cfg site u d st) = graph_edges st"
  "reached (enqueue cfg site u d st) = reached st"
  by (simp_all add: enqueue_def)

lemma addNode_fields [simp]:
  "frontier (addNode site u d t st) = frontier st"
  "visited (addNode site u d t st) = visited st"
  "graph_edges (addNode site u d t st) = graph_edges st"
  "reached (addNode site u d t st) = reached st"
  by (simp_all add: addNode_def)

lemma addEdge_fields [simp]:
  "frontier (addEdge site s t st) = frontier st"
  "visited (addEdge site s t st) = visited st"
  "graph_nodes (addEdge site s t st) = graph_nodes st"
  "reached (addEdge site s t st) = reached st"
  by (simp_all add: addEdge_def)

lemma reach_fields [simp]:
  "frontier (reach site u d st) = frontier st"
  "visited (reach site u d st) = visited st"
  "graph_nodes (reach site u d st) = graph_nodes st"
  "graph_edges (reach site u d st) = graph_edges st"
  "reached (reach site u d st) = reached st @ [(normal_form site u, d)]"
  by (simp_all add: reach_def)

















lemma follow_link_external:
  assumes "\<not> in_scope site (normal_form site l)"
  shows "frontier (follow_link cfg site u d l st) = frontier st"
    and "visited (follow_link cfg site u d l st) = visited st"
    and "reached (follow_link cfg site u d l st) = reached st @ [(normal_form site l, d + 1)]"
    and "graph_nodes (follow_link cfg site u d l st) =
          (if normal_form site l \<in> fst ` set (graph_nodes st) then graph_nodes st
           else graph_nodes st @
                  [(normal_form site l, \<lparr>gn_url = l, gn_title = None, gn_depth = d + 1\<rparr>)])"
  using assms by (simp_all add: follow_link_def Let_def addNode_def)

lemma follow_link_admitted:
  assumes "in_scope site (normal_form site l)" and "admits cfg site l (d + 1) st"
  shows "frontier (follow_link cfg site u d l st) = frontier st @ [(l, d + 1)]"
    and "visited (follow_link cfg site u d l st) = visited st @ [normal_form site l]"
    and "reached (follow_link cfg site u d l st) = reached st @ [(normal_form site l, d + 1)]"
    and "graph_nodes (follow_link cfg site u d l st) = graph_nodes st"
proof -
  have a: "admits cfg site l (d + 1) (reach site l (d + 1) st)"
    using assms(2) by (simp add: admits_def)
  show "frontier (follow_link cfg site u d l st) = frontier st @ [(l, d + 1)]"
    and "visited (follow_link cfg site u d l st) = visited st @ [normal_form site l]"
    and "reached (follow_link cfg site u d l st) = reached st @ [(normal_form site l, d + 1)]"
    and "graph_nodes (follow_link cfg site u d l st) = graph_nodes st"
    using assms(1) a by (simp_all add: follow_link_def Let_def enqueue_def)
qed

lemma follow_link_refused:
  assumes "in_scope site (normal_form site l)" and "\<not> admits cfg site l (d + 1) st"
  shows "frontier (follow_link cfg site u d l st) = frontier st"
    and "visited (follow_link cfg site u d l st) = visited st"
    and "reached (follow_link cfg site u d l st) = reached st @ [(normal_form site l, d + 1)]"
    and "graph_nodes (follow_link cfg site u d l st) = graph_nodes st"
proof -
  have a: "\<not> admits cfg site l (d + 1) (reach site l (d + 1) st)"
    using assms(2) by (simp add: admits_def)
  show "frontier (follow_link cfg site u d l st) = frontier st"
    and "visited (follow_link cfg site u d l st) = visited st"
    and "reached (follow_link cfg site u d l st) = reached st @ [(normal_form site l, d + 1)]"
    and "graph_nodes (follow_link cfg site u d l st) = graph_nodes st"
    using assms(1) a by (simp_all add: follow_link_def Let_def enqueue_def)
qed











lemma graph_nodes_follow_link: "prefix (graph_nodes st) (graph_nodes (follow_link cfg site u d l st))"
  by (simp add: follow_link_def Let_def addNode_def)




lemma covered_follow_link:
  assumes "covered site st"
  shows "covered site (follow_link cfg site u d l st)"
proof (cases "in_scope site (normal_form site l)")
  case False
  note f = follow_link_external [OF False, of cfg u d st]
  show ?thesis
    using assms unfolding covered_def f by auto
next
  case True
  show ?thesis
  proof (cases "admits cfg site l (d + 1) st")
    case adm: True
    note f = follow_link_admitted [OF True adm, of u]
    show ?thesis
      using assms unfolding covered_def f by auto
  next
    case ref: False
    note f = follow_link_refused [OF True ref, of u]
    show ?thesis
      using assms unfolding covered_def f by auto
  qed
qed

lemma covered_fold:
  "covered site st \<Longrightarrow> covered site (fold (follow_link cfg site u d) ls st)"
  by (induction ls arbitrary: st) (simp_all add: covered_follow_link)

lemma covered_addNode:
  assumes "\<forall>k \<in> set (visited st). k \<in> fst ` set (graph_nodes st)
             \<or> k \<in> (\<lambda>e. normal_form site (fst e)) ` set (frontier st) \<or> k = normal_form site u"
  shows "covered site (addNode site u d t st)"
proof (cases "normal_form site u \<in> fst ` set (graph_nodes st)")
  case True
  with assms show ?thesis
    unfolding covered_def by (auto simp: addNode_def)
next
  case False
  then have e: "graph_nodes (addNode site u d t st) =
      graph_nodes st @ [(normal_form site u, \<lparr>gn_url = u, gn_title = t, gn_depth = d\<rparr>)]"
    by (simp add: addNode_def)
  show ?thesis
    using assms unfolding covered_def e by auto
qed

lemma covered_expand:
  assumes "\<forall>k \<in> set (visited st). k \<in> fst ` set (graph_nodes st)
             \<or> k \<in> (\<lambda>e. normal_form site (fst e)) ` set (frontier st) \<or> k = normal_form site u"
  shows "covered site (expand cfg site u d st)"
proof -
  have n: "covered site (addNode site u d t st)" for t
    using assms by (rule covered_addNode)
  show ?thesis
    by (cases "fetch_page site u") (auto simp: expand_def n covered_fold)
qed

lemma covered_loop:
  "covered site st \<Longrightarrow> covered site (crawl_loop cfg site st)"
proof (induction cfg site st rule: crawl_loop.induct)
  case (1 cfg site st)
  show ?case
  proof (cases "frontier st")
    case Nil
    with "1.prems" show ?thesis by simp
  next
    case (Cons x q)
    obtain u d where x: "x = (u, d)" by (cases x)
    have f: "frontier st = (u, d) # q" using Cons x by simp
    have "\<forall>k \<in> set (visited (st\<lparr>frontier := q\<rparr>)). k \<in> fst ` set (graph_nodes (st\<lparr>frontier := q\<rparr>))
             \<or> k \<in> (\<lambda>e. normal_form site (fst e)) ` set (frontier (st\<lparr>frontier := q\<rparr>))
             \<or> k = normal_form site u"
      using "1.prems" f unfolding covered_def by auto
    then have "covered site (expand cfg site u d (st\<lparr>frontier := q\<rparr>))"
      by (rule covered_expand)
    then have "covered site (crawl_loop cfg site (expand cfg site u d (st\<lparr>frontier := q\<rparr>)))"
      by (rule "1.IH" [OF Cons x [symmetric]])
    with f show ?thesis by simp
  qed
qed

lemma frontier_loop: "frontier (crawl_loop cfg site st) = []"
proof (induction cfg site st rule: crawl_loop.induct)
  case (1 cfg site st)
  show ?case
  proof (cases "frontier st")
    case Nil
    then show ?thesis by simp
  next
    case (Cons x q)
    obtain u d where x: "x = (u, d)" by (cases x)
    have "frontier (crawl_loop cfg site (expand cfg site u d (st\<lparr>frontier := q\<rparr>))) = []"
      by (rule "1.IH" [OF Cons x [symmetric]])
    with Cons x show ?thesis by simp
  qed
qed

lemma covered_seed: "covered site (seed cfg site)"
  by (simp add: covered_def seed_def enqueue_def reach_def empty_job_def)

lemma job_covered: "set (visited (crawl_job cfg site)) \<subseteq> fst ` set (graph_nodes (crawl_job cfg site))"
proof -
  have "covered site (crawl_job cfg site)"
    unfolding crawl_job_def by (intro covered_loop covered_seed)
  moreover have "frontier (crawl_job cfg site) = []"
    unfolding crawl_job_def by (rule frontier_loop)
  ultimately show ?thesis
    unfolding covered_def by auto
qed



lemma assemble_node_fields [simp]:
  "node_url (assemble_node es kn) = gn_url (snd kn)"
  "depth (assemble_node es kn) = int (gn_depth (snd kn))"
  "node_id (assemble_node es kn) = fst kn"
  by (simp_all add: assemble_node_def)












text \<open>
  Every edge of a result joins nodes of the result (section 8 of the spec).
\<close>

lemma keys_addNode: "normal_form site u \<in> fst ` set (graph_nodes (addNode site u d t st))"
  by (simp add: addNode_def)

lemma keys_mono:
  assumes "prefix (graph_nodes st) (graph_nodes st')"
  shows "fst ` set (graph_nodes st) \<subseteq> fst ` set (graph_nodes st')"
  using assms set_mono_prefix by (metis image_mono)

lemma visited_follow_link: "set (visited st) \<subseteq> set (visited (follow_link cfg site u d l st))"
  by (auto simp: follow_link_def Let_def enqueue_def)

lemma graph_edges_follow_link:
  "set (graph_edges (follow_link cfg site u d l st))
     \<subseteq> insert (normal_form site u, normal_form site l) (set (graph_edges st))"
  by (auto simp: follow_link_def Let_def enqueue_def addEdge_def addNode_def reach_def split: if_splits)

lemma new_edge_target:
  assumes "(normal_form site u, normal_form site l) \<in> set (graph_edges (follow_link cfg site u d l st))"
    and "(normal_form site u, normal_form site l) \<notin> set (graph_edges st)"
  shows "normal_form site l \<in> fst ` set (graph_nodes (follow_link cfg site u d l st))
       \<or> normal_form site l \<in> set (visited (follow_link cfg site u d l st))"
proof (cases "in_scope site (normal_form site l)")
  case False
  then have "graph_nodes (follow_link cfg site u d l st) = graph_nodes (addNode site l (d + 1) None st)"
    by (simp add: follow_link_def Let_def addNode_def)
  then show ?thesis
    using keys_addNode [of site l "d + 1" None st] by simp
next
  case True
  show ?thesis
  proof (cases "normal_form site l \<in> set (visited (enqueue cfg site l (d + 1) (reach site l (d + 1) st)))")
    case v: True
    with True have "visited (follow_link cfg site u d l st)
        = visited (enqueue cfg site l (d + 1) (reach site l (d + 1) st))"
      by (simp add: follow_link_def Let_def)
    with v show ?thesis by simp
  next
    case v: False
    with True have "graph_edges (follow_link cfg site u d l st) = graph_edges st"
      by (simp add: follow_link_def Let_def)
    with assms show ?thesis by simp
  qed
qed

lemma inv_edges_follow_link:
  assumes I: "inv_edges site st" and u: "normal_form site u \<in> fst ` set (graph_nodes st)"
  shows "inv_edges site (follow_link cfg site u d l st)"
  unfolding inv_edges_def
proof
  fix e
  let ?st' = "follow_link cfg site u d l st"
  assume e: "e \<in> set (graph_edges ?st')"
  have k: "fst ` set (graph_nodes st) \<subseteq> fst ` set (graph_nodes ?st')"
    by (rule keys_mono [OF graph_nodes_follow_link])
  have v: "set (visited st) \<subseteq> set (visited ?st')"
    by (rule visited_follow_link)
  show "fst e \<in> fst ` set (graph_nodes ?st')
        \<and> (snd e \<in> fst ` set (graph_nodes ?st') \<or> snd e \<in> set (visited ?st'))"
  proof (cases "e \<in> set (graph_edges st)")
    case True
    with I have "fst e \<in> fst ` set (graph_nodes st)
        \<and> (snd e \<in> fst ` set (graph_nodes st) \<or> snd e \<in> set (visited st))"
      unfolding inv_edges_def by blast
    with k v show ?thesis by blast
  next
    case False
    with e graph_edges_follow_link [of cfg site u d l st]
    have eq: "e = (normal_form site u, normal_form site l)"
      by blast
    have "normal_form site l \<in> fst ` set (graph_nodes ?st') \<or> normal_form site l \<in> set (visited ?st')"
      using e False unfolding eq by (rule new_edge_target)
    with u k show ?thesis
      unfolding eq by auto
  qed
qed

lemma inv_edges_fold:
  "inv_edges site st \<Longrightarrow> normal_form site u \<in> fst ` set (graph_nodes st) \<Longrightarrow>
     inv_edges site (fold (follow_link cfg site u d) ls st)"
proof (induction ls arbitrary: st)
  case Nil
  then show ?case by simp
next
  case (Cons l ls)
  have "inv_edges site (follow_link cfg site u d l st)"
    using Cons.prems by (rule inv_edges_follow_link)
  moreover have "normal_form site u \<in> fst ` set (graph_nodes (follow_link cfg site u d l st))"
    using Cons.prems(2) keys_mono [OF graph_nodes_follow_link [of st cfg site u d l]] by blast
  ultimately show ?case
    using Cons.IH by simp
qed

lemma inv_edges_addNode: "inv_edges site st \<Longrightarrow> inv_edges site (addNode site u d t st)"
  unfolding inv_edges_def by (auto simp: addNode_def)

lemma inv_edges_expand: "inv_edges site st \<Longrightarrow> inv_edges site (expand cfg site u d st)"
proof -
  assume I: "inv_edges site st"
  have n: "inv_edges site (addNode site u d t st)" for t
    using I by (rule inv_edges_addNode)
  show ?thesis
    by (cases "fetch_page site u") (auto simp: expand_def n keys_addNode inv_edges_fold)
qed

lemma inv_edges_loop: "inv_edges site st \<Longrightarrow> inv_edges site (crawl_loop cfg site st)"
proof (induction cfg site st rule: crawl_loop.induct)
  case (1 cfg site st)
  show ?case
  proof (cases "frontier st")
    case Nil
    with "1.prems" show ?thesis by simp
  next
    case (Cons x q)
    obtain u d where x: "x = (u, d)" by (cases x)
    have "inv_edges site (st\<lparr>frontier := q\<rparr>)"
      using "1.prems" by (simp add: inv_edges_def)
    then have "inv_edges site (expand cfg site u d (st\<lparr>frontier := q\<rparr>))"
      by (rule inv_edges_expand)
    then have "inv_edges site (crawl_loop cfg site (expand cfg site u d (st\<lparr>frontier := q\<rparr>)))"
      by (rule "1.IH" [OF Cons x [symmetric]])
    with Cons x show ?thesis by simp
  qed
qed

lemma job_edges_closed:
  assumes "e \<in> set (graph_edges (crawl_job cfg site))"
  shows "fst e \<in> fst ` set (graph_nodes (crawl_job cfg site))"
    and "snd e \<in> fst ` set (graph_nodes (crawl_job cfg site))"
proof -
  have "inv_edges site (seed cfg site)"
    by (simp add: inv_edges_def seed_def enqueue_def reach_def empty_job_def)
  then have I: "inv_edges site (crawl_job cfg site)"
    unfolding crawl_job_def by (rule inv_edges_loop)
  from I assms show "fst e \<in> fst ` set (graph_nodes (crawl_job cfg site))"
    unfolding inv_edges_def by blast
  from I assms job_covered [of cfg site]
  show "snd e \<in> fst ` set (graph_nodes (crawl_job cfg site))"
    unfolding inv_edges_def by blast
qed

lemma crawl_links_reference_nodes:
  assumes "l \<in> set (links (crawl cfg site elapsed))"
  shows "source l \<in> node_id ` set (nodes (crawl cfg site elapsed))
       \<and> target l \<in> node_id ` set (nodes (crawl cfg site elapsed))"
proof -
  have ne: "links (crawl cfg site elapsed) \<noteq> []"
    using assms by auto
  then have c: "crawl cfg site elapsed = assemble cfg elapsed (crawl_job cfg site)"
    by (auto simp: crawl_def failed_result_def split: if_splits)
  have ids: "node_id ` set (nodes (crawl cfg site elapsed)) = fst ` set (graph_nodes (crawl_job cfg site))"
    unfolding c by (simp add: assemble_def image_image)
  from assms obtain e where e: "e \<in> set (graph_edges (crawl_job cfg site))"
    and l: "l = \<lparr>source = fst e, target = snd e\<rparr>"
    unfolding c by (auto simp: assemble_def)
  show ?thesis
    unfolding ids l using job_edges_closed [OF e] by simp
qed

end
